theory Spec2Isabelle
  imports Complex_Main "HOL-Library.Log_Nat"
begin

section \<open>The Bohr model of hydrogen-like atoms (MBohr, core.py)\<close>

text \<open>
  A shallow embedding of the class \<^verbatim>\<open>BohrAtom\<close> of \<^verbatim>\<open>src/MBohr/core.py\<close>, with
  Python's arithmetic as CPython runs it.

  \<^item> Python's \<^verbatim>\<open>int\<close> is \<^typ>\<open>int\<close>; \<^verbatim>\<open>n**2\<close> on an int is the exact int power.
  \<^item> Python's \<^verbatim>\<open>float\<close> is IEEE 754 binary64: a finite value, an infinity or NaN
    (\<open>py_float\<close>). Every operation computes the exact real result and rounds it to the
    nearest binary64 number, ties to even (\<open>round64\<close>); a result beyond the range
    becomes an infinity, a tiny one a subnormal number or zero.
  \<^item> An int that meets a float is converted first (\<open>int_to_float\<close>), which raises
    \<^verbatim>\<open>OverflowError\<close> when the int rounds beyond the binary64 range.
  \<^item> A \<^verbatim>\<open>raise\<close> is the left injection of \<open>py_error + 'a\<close>, and \<open>py_bind\<close> runs the
    next step only when the one before it returned. Python's true division raises
    \<^verbatim>\<open>ZeroDivisionError\<close> on a zero divisor (\<open>py_truediv\<close>).
  \<^item> A string is a \<^typ>\<open>string\<close>; \<^verbatim>\<open>str.lower\<close> is modelled on the ASCII letters
    (no other code point is mapped by Python to \<^verbatim>\<open>j\<close>, \<^verbatim>\<open>e\<close> or \<^verbatim>\<open>v\<close>, the only
    characters the source compares the lowered unit with).
\<close>

subsection \<open>Python exceptions\<close>

datatype py_error = ValueError string | ZeroDivisionError | OverflowError

definition py_bind :: "py_error + 'a \<Rightarrow> ('a \<Rightarrow> py_error + 'b) \<Rightarrow> py_error + 'b" where
  "py_bind m f = (case m of Inl err \<Rightarrow> Inl err | Inr v \<Rightarrow> f v)"

subsection \<open>Python floats: IEEE 754 binary64\<close>

text \<open>
  A finite float is kept as the real number it denotes. The two zeros are one value
  \<open>Fin 0\<close>: Python's \<^verbatim>\<open>==\<close>, \<^verbatim>\<open><\<close>, \<^verbatim>\<open>abs\<close> and its test for a zero divisor do not
  tell \<^verbatim>\<open>-0.0\<close> from \<^verbatim>\<open>0.0\<close>, and nothing else in this program looks at a sign of zero.
\<close>

datatype py_float = Fin real | PInf | NInf | NaN

text \<open>Rounding a real to the nearest integer, ties to the even one.\<close>

definition rne :: "real \<Rightarrow> int" where
  "rne y =
     (let f = \<lfloor>y\<rfloor>; r = y - of_int f
      in if r < 1 / 2 then f else if 1 / 2 < r then f + 1 else if even f then f else f + 1)"

text \<open>
  \<open>ilog2 x\<close> is the integer \<open>L\<close> with \<open>2 ^ L \<le> x < 2 ^ (L + 1)\<close>, for \<open>x > 0\<close>. A
  binary64 number of that size has 53 significant bits, so that neighbouring numbers are
  \<open>2 ^ (L - 52)\<close> apart; below \<open>2 ^ (-1022)\<close>, among the subnormal numbers, the spacing
  stays \<open>2 ^ (-1074)\<close>. \<open>ulp_exp\<close> is the exponent of that spacing and \<open>rnd\<close> rounds to
  the nearest multiple of it.
\<close>

definition ilog2 :: "real \<Rightarrow> int" where
  "ilog2 x = (if 1 \<le> x then bitlen \<lfloor>x\<rfloor> - 1 else - bitlen (\<lceil>1 / x\<rceil> - 1))"

definition ulp_exp :: "real \<Rightarrow> int" where
  "ulp_exp x = max (ilog2 \<bar>x\<bar> - 52) (- 1074)"

definition rnd :: "real \<Rightarrow> real" where
  "rnd x =
     (if x = 0 then 0
      else sgn x * (of_int (rne (\<bar>x\<bar> / 2 powi ulp_exp x)) * 2 powi ulp_exp x))"

text \<open>
  The largest binary64 number is \<open>2 ^ 1024 - 2 ^ 971\<close>; a real rounds beyond it from the
  midpoint \<open>2 ^ 1024 - 2 ^ 970\<close> on.
\<close>

definition overflow_bound :: real where
  "overflow_bound = 2 ^ 1024 - 2 ^ 970"

definition round64 :: "real \<Rightarrow> py_float" where
  "round64 x =
     (if overflow_bound \<le> x then PInf
      else if x \<le> - overflow_bound then NInf
      else Fin (rnd x))"

definition fsign :: "py_float \<Rightarrow> real" where
  "fsign x = (case x of Fin a \<Rightarrow> sgn a | PInf \<Rightarrow> 1 | NInf \<Rightarrow> - 1 | NaN \<Rightarrow> 0)"

definition inf_of_sign :: "real \<Rightarrow> py_float" where
  "inf_of_sign s = (if s = 0 then NaN else if 0 < s then PInf else NInf)"

text \<open>Float multiplication \<^verbatim>\<open>x * y\<close>; an infinity times zero is NaN.\<close>

fun fmul :: "py_float \<Rightarrow> py_float \<Rightarrow> py_float" where
  "fmul NaN y = NaN"
| "fmul x NaN = NaN"
| "fmul (Fin a) (Fin b) = round64 (a * b)"
| "fmul x y = inf_of_sign (fsign x * fsign y)"

text \<open>
  The quotient of a float division whose divisor is not zero (\<open>py_truediv\<close> below has
  raised otherwise).
\<close>

fun fdiv :: "py_float \<Rightarrow> py_float \<Rightarrow> py_float" where
  "fdiv NaN y = NaN"
| "fdiv x NaN = NaN"
| "fdiv (Fin a) (Fin b) = round64 (a / b)"
| "fdiv (Fin a) y = Fin 0"
| "fdiv x (Fin b) = inf_of_sign (fsign x * sgn b)"
| "fdiv x y = NaN"

text \<open>Float subtraction \<^verbatim>\<open>x - y\<close>.\<close>

fun fsub :: "py_float \<Rightarrow> py_float \<Rightarrow> py_float" where
  "fsub NaN y = NaN"
| "fsub x NaN = NaN"
| "fsub (Fin a) (Fin b) = round64 (a - b)"
| "fsub (Fin a) PInf = NInf"
| "fsub (Fin a) NInf = PInf"
| "fsub PInf PInf = NaN"
| "fsub NInf NInf = NaN"
| "fsub PInf y = PInf"
| "fsub NInf y = NInf"

text \<open>Unary minus and \<^verbatim>\<open>abs\<close>, both exact.\<close>

fun fneg :: "py_float \<Rightarrow> py_float" where
  "fneg (Fin a) = Fin (- a)"
| "fneg PInf = NInf"
| "fneg NInf = PInf"
| "fneg NaN = NaN"

fun fabs :: "py_float \<Rightarrow> py_float" where
  "fabs (Fin a) = Fin \<bar>a\<bar>"
| "fabs PInf = PInf"
| "fabs NInf = PInf"
| "fabs NaN = NaN"

text \<open>Python's \<^verbatim>\<open>x / y\<close> on floats: a zero divisor raises, before anything else is looked at.\<close>

definition py_truediv :: "py_float \<Rightarrow> py_float \<Rightarrow> py_error + py_float" where
  "py_truediv x y = (if y = Fin 0 then Inl ZeroDivisionError else Inr (fdiv x y))"

text \<open>
  The conversion of an int operand of a float operation: correctly rounded, and
  \<^verbatim>\<open>OverflowError\<close> (``int too large to convert to float'') beyond the range.
\<close>

definition int_to_float :: "int \<Rightarrow> py_error + py_float" where
  "int_to_float k =
     (if overflow_bound \<le> \<bar>of_int k\<bar> then Inl OverflowError else Inr (Fin (rnd (of_int k))))"

text \<open>
  \<^verbatim>\<open>x ** k\<close> for a float \<open>x\<close> and a positive int literal \<open>k\<close> (the source has \<open>k = 2\<close> and
  \<open>k = 4\<close>): C's \<^verbatim>\<open>pow\<close>, taken to round correctly; CPython turns its range error into
  \<^verbatim>\<open>OverflowError\<close>.
\<close>

fun fpow :: "py_float \<Rightarrow> nat \<Rightarrow> py_error + py_float" where
  "fpow (Fin a) k =
     (if overflow_bound \<le> \<bar>a ^ k\<bar> then Inl OverflowError else Inr (Fin (rnd (a ^ k))))"
| "fpow PInf k = Inr PInf"
| "fpow NInf k = Inr (if even k then PInf else NInf)"
| "fpow NaN k = Inr NaN"

subsection \<open>Module constants (lines 17 to 22)\<close>

text \<open>
  A float literal is the binary64 number nearest to its decimal value; \<^verbatim>\<open>math.pi\<close> is the
  binary64 number \<open>884279719003555 / 2 ^ 48\<close>. \<^verbatim>\<open>_hbar\<close> is computed when the module is
  loaded, by a float division.
\<close>

definition const_pi :: py_float where
  "const_pi = Fin (884279719003555 / 2 ^ 48)"

definition const_h :: py_float where
  "const_h = round64 (662607015 / 10 ^ 42)"

definition const_hbar :: "py_error + py_float" where
  "const_hbar = py_truediv const_h (fmul (Fin 2) const_pi)"

definition const_e :: py_float where
  "const_e = round64 (1602176634 / 10 ^ 28)"

definition const_m_e :: py_float where
  "const_m_e = round64 (91093837015 / 10 ^ 41)"

definition const_epsilon0 :: py_float where
  "const_epsilon0 = round64 (88541878128 / 10 ^ 22)"

definition const_c :: py_float where
  "const_c = round64 299792458"

subsection \<open>The class BohrAtom\<close>

text \<open>
  The fields of an instance: \<^verbatim>\<open>self.Z\<close>, the per-instance copies \<^verbatim>\<open>self._h\<close>,
  \<^verbatim>\<open>self._hbar\<close>, \<^verbatim>\<open>self._e\<close>, \<^verbatim>\<open>self._m_e\<close>, \<^verbatim>\<open>self._epsilon0\<close>, \<^verbatim>\<open>self._c\<close> of the
  module constants, and the derived \<^verbatim>\<open>self.a0\<close>.
\<close>

record BohrAtom =
  Z :: int
  self_h :: py_float
  self_hbar :: py_float
  self_e :: py_float
  self_m_e :: py_float
  self_epsilon0 :: py_float
  self_c :: py_float
  a0 :: py_float

definition msg_Z :: string where
  "msg_Z = ''Z debe ser >= 1''"

definition msg_n :: string where
  "msg_n = ''n debe ser >= 1''"

definition msg_unit :: string where
  "msg_unit = ''Unidad desconocida. Use '' @ [CHR 0x27] @ ''eV'' @ [CHR 0x27] @ '' o ''
                @ [CHR 0x27] @ ''J'' @ [CHR 0x27] @ ''.''"

text \<open>\<^verbatim>\<open>str.lower\<close> on the ASCII letters.\<close>

definition lower_char :: "char \<Rightarrow> char" where
  "lower_char ch =
     (let k = (of_char ch :: nat) in if 65 \<le> k \<and> k \<le> 90 then char_of (k + 32) else ch)"

definition str_lower :: "string \<Rightarrow> string" where
  "str_lower s = map lower_char s"

text \<open>
  \<^verbatim>\<open>BohrAtom.__init__\<close> (lines 30 to 43). The module must have been loaded, so
  \<^verbatim>\<open>_hbar\<close> exists; then \<^verbatim>\<open>Z < 1\<close> is tested on the int, and
  \<^verbatim>\<open>4 * math.pi * self._epsilon0 * self._hbar**2 / (self._m_e * self._e**2)\<close> is computed
  from left to right.
\<close>

definition BohrAtom_init :: "int \<Rightarrow> py_error + BohrAtom" where
  "BohrAtom_init z =
     py_bind const_hbar (\<lambda>hbar.
       if z < 1 then Inl (ValueError msg_Z)
       else
         py_bind (fpow hbar 2) (\<lambda>hbar2.
         py_bind (fpow const_e 2) (\<lambda>e2.
         py_bind (py_truediv (fmul (fmul (fmul (Fin 4) const_pi) const_epsilon0) hbar2)
                             (fmul const_m_e e2)) (\<lambda>r.
           Inr \<lparr> Z = z, self_h = const_h, self_hbar = hbar, self_e = const_e,
                 self_m_e = const_m_e, self_epsilon0 = const_epsilon0, self_c = const_c,
                 a0 = r \<rparr>))))"

text \<open>
  \<^verbatim>\<open>energy_joule\<close> (lines 45 to 51):
  \<^verbatim>\<open>- (self._m_e * self._e**4 * self.Z**2) / (8 * self._epsilon0**2 * self._h**2 * n**2)\<close>.
  The numerator is computed and negated first, then the denominator; \<^verbatim>\<open>self.Z**2\<close> and
  \<^verbatim>\<open>n**2\<close> are ints, converted when they are multiplied with a float.
\<close>

definition energy_joule :: "BohrAtom \<Rightarrow> int \<Rightarrow> py_error + py_float" where
  "energy_joule self n =
     (if n < 1 then Inl (ValueError msg_n)
      else
        py_bind (fpow (self_e self) 4) (\<lambda>e4.
        py_bind (int_to_float (Z self ^ 2)) (\<lambda>zf.
        py_bind (fpow (self_epsilon0 self) 2) (\<lambda>eps2.
        py_bind (fpow (self_h self) 2) (\<lambda>h2.
        py_bind (int_to_float (n ^ 2)) (\<lambda>nf.
          py_truediv (fneg (fmul (fmul (self_m_e self) e4) zf))
                     (fmul (fmul (fmul (Fin 8) eps2) h2) nf)))))))"

text \<open>\<^verbatim>\<open>energy\<close> (lines 53 to 61): the level is computed before the unit is looked at.\<close>

definition energy :: "BohrAtom \<Rightarrow> int \<Rightarrow> string \<Rightarrow> py_error + py_float" where
  "energy self n unit =
     py_bind (energy_joule self n) (\<lambda>E_j.
       if str_lower unit = ''j'' then Inr E_j
       else if str_lower unit = ''ev'' then py_truediv E_j (self_e self)
       else Inl (ValueError msg_unit))"


text \<open>\<^verbatim>\<open>transition_energy_joule\<close> (lines 69 to 73): \<^verbatim>\<open>E_i\<close> first, then \<^verbatim>\<open>E_f\<close>.\<close>

definition transition_energy_joule :: "BohrAtom \<Rightarrow> int \<Rightarrow> int \<Rightarrow> py_error + py_float" where
  "transition_energy_joule self n_i n_f =
     py_bind (energy_joule self n_i) (\<lambda>E_i.
     py_bind (energy_joule self n_f) (\<lambda>E_f.
       Inr (fsub E_f E_i)))"


text \<open>\<^verbatim>\<open>frequency\<close> (lines 85 to 88).\<close>

definition frequency :: "BohrAtom \<Rightarrow> int \<Rightarrow> int \<Rightarrow> py_error + py_float" where
  "frequency self n_i n_f =
     py_bind (transition_energy_joule self n_i n_f) (\<lambda>d.
       py_truediv (fabs d) (self_h self))"

text \<open>\<^verbatim>\<open>wavelength\<close> (lines 90 to 93): no test of \<^verbatim>\<open>nu\<close> before the division.\<close>

definition wavelength :: "BohrAtom \<Rightarrow> int \<Rightarrow> int \<Rightarrow> py_error + py_float" where
  "wavelength self n_i n_f =
     py_bind (frequency self n_i n_f) (\<lambda>nu.
       py_truediv (self_c self) nu)"

subsection \<open>Notions for the statements and proofs\<close>

text \<open>
  Error analysis. \<open>rel k w X\<close>: the computed \<open>w\<close> is the ideal \<open>X\<close> times a factor
  between \<open>beta ^ (-k)\<close> and \<open>beta ^ k\<close>, the trace of \<open>k\<close> roundings, each of relative error
  at most \<open>2 ^ (-53)\<close>. \<open>mag a b X\<close>: the size of \<open>X\<close> lies between \<open>2 ^ a\<close> and \<open>2 ^ b\<close>.
  \<open>approx k a b f X\<close>: the float \<open>f\<close> is finite and its value is \<open>rel k\<close> to \<open>X\<close>, which
  has \<open>mag a b\<close>.
\<close>

definition beta :: real where
  "beta = 1 + 1 / 2 ^ 52"

definition rel :: "nat \<Rightarrow> real \<Rightarrow> real \<Rightarrow> bool" where
  "rel k w X \<longleftrightarrow> (\<exists>\<theta>. w = X * \<theta> \<and> 1 / beta ^ k \<le> \<theta> \<and> \<theta> \<le> beta ^ k)"

definition mag :: "int \<Rightarrow> int \<Rightarrow> real \<Rightarrow> bool" where
  "mag a b X \<longleftrightarrow> 2 powi a \<le> \<bar>X\<bar> \<and> \<bar>X\<bar> \<le> 2 powi b"

definition approx :: "nat \<Rightarrow> int \<Rightarrow> int \<Rightarrow> py_float \<Rightarrow> real \<Rightarrow> bool" where
  "approx k a b f X \<longleftrightarrow> k \<le> 40 \<and> mag a b X \<and> (\<exists>x. f = Fin x \<and> rel k x X)"

text \<open>
  The real number a finite float denotes.
\<close>

definition valof :: "py_float \<Rightarrow> real" where
  "valof f = (case f of Fin x \<Rightarrow> x | _ \<Rightarrow> 0)"

text \<open>
  The Bohr radius of the source's formula, in exact arithmetic on the decimal literals and
  the binary64 \<open>\<pi>\<close>.
\<close>

definition a0_ideal :: real where
  "a0_ideal =
     4 * (884279719003555 / 2 ^ 48) * (88541878128 / 10 ^ 22)
       * (662607015 / 10 ^ 42 / (2 * (884279719003555 / 2 ^ 48))) ^ 2
     / (91093837015 / 10 ^ 41 * (1602176634 / 10 ^ 28) ^ 2)"


text \<open>
  The instance that \<^verbatim>\<open>BohrAtom(1)\<close> builds, for the concrete evaluations below.
\<close>

definition hydrogen :: BohrAtom where
  "hydrogen = projr (BohrAtom_init 1)"

section \<open>Properties\<close>

subsection \<open>Unit strings\<close>










lemma msg_n_neq_msg_unit: "msg_n \<noteq> msg_unit"
  by (simp add: msg_n_def msg_unit_def)

lemma rne_error: "\<bar>of_int (rne y) - y\<bar> \<le> 1 / 2"
proof -
  have "of_int \<lfloor>y\<rfloor> \<le> y" "y < of_int \<lfloor>y\<rfloor> + 1"
    by linarith+
  then show ?thesis
    by (auto simp: rne_def Let_def)
qed


lemma two_power_le_of_int:
  assumes "(2::int) ^ k \<le> f"
  shows "(2::real) ^ k \<le> of_int f"
proof -
  have "(of_int ((2::int) ^ k) :: real) \<le> of_int f"
    using assms by (simp only: of_int_le_iff)
  then show ?thesis
    by simp
qed

lemma of_int_le_two_power:
  assumes "f \<le> (2::int) ^ k"
  shows "of_int f \<le> (2::real) ^ k"
proof -
  have "(of_int f :: real) \<le> of_int ((2::int) ^ k)"
    using assms by (simp only: of_int_le_iff)
  then show ?thesis
    by simp
qed

lemma ilog2_bounds:
  assumes "0 < x"
  shows "2 powi ilog2 x \<le> x" and "x < 2 powi (ilog2 x + 1)"
proof -
  have "2 powi ilog2 x \<le> x \<and> x < 2 powi (ilog2 x + 1)"
  proof (cases "1 \<le> x")
    case True
    define f where "f = \<lfloor>x\<rfloor>"
    have f: "0 < f" "of_int f \<le> x" "x < of_int f + 1"
      using True unfolding f_def by linarith+
    define b where "b = bitlen f"
    have b: "2 ^ nat (b - 1) \<le> f" "f < 2 ^ nat b"
      using bitlen_bounds [OF f(1)] unfolding b_def by simp_all
    have "0 < b"
      using f(1) bitlen_nonneg [of f] bitlen_eq_zero_iff [of f] unfolding b_def by linarith
    then have p1: "(2::real) powi (b - 1) = 2 ^ nat (b - 1)" and p2: "(2::real) powi b = 2 ^ nat b"
      by (simp_all add: power_int_def)
    have "(2::real) ^ nat (b - 1) \<le> of_int f"
      using b(1) by (rule two_power_le_of_int)
    moreover have "of_int f + 1 \<le> (2::real) ^ nat b"
    proof -
      have "f + 1 \<le> 2 ^ nat b"
        using b(2) by simp
      then have "of_int (f + 1) \<le> (2::real) ^ nat b"
        by (rule of_int_le_two_power)
      then show ?thesis
        by simp
    qed
    ultimately have "(2::real) ^ nat (b - 1) \<le> x \<and> x < 2 ^ nat b"
      using f by linarith
    moreover have "ilog2 x = b - 1"
      using True by (simp add: ilog2_def f_def b_def)
    ultimately show ?thesis
      by (simp only: p1 [symmetric] p2 [symmetric]) simp
  next
    case False
    define y where "y = 1 / x"
    have y: "1 < y"
      using False assms by (simp add: y_def)
    define c where "c = \<lceil>y\<rceil>"
    have c: "y \<le> of_int c" "of_int c - 1 < y"
      unfolding c_def by linarith+
    have c1: "0 < c - 1"
      using y c(1) by linarith
    define j where "j = bitlen (c - 1)"
    have j: "2 ^ nat (j - 1) \<le> c - 1" "c - 1 < 2 ^ nat j"
      using bitlen_bounds [OF c1] unfolding j_def by simp_all
    have jpos: "0 < j"
      using c1 bitlen_nonneg [of "c - 1"] bitlen_eq_zero_iff [of "c - 1"] unfolding j_def by linarith
    have lo: "(2::real) ^ nat (j - 1) \<le> of_int (c - 1)"
      using j(1) by (rule two_power_le_of_int)
    have hi: "of_int c \<le> (2::real) ^ nat j"
    proof -
      have "c \<le> 2 ^ nat j"
        using j(2) by simp
      then show ?thesis
        by (rule of_int_le_two_power)
    qed
    have ylo: "(2::real) ^ nat (j - 1) < y" and yhi: "y \<le> 2 ^ nat j"
      using lo hi c by (simp_all only: of_int_diff of_int_1)
    have p1: "(2::real) powi (- j) = 1 / 2 ^ nat j"
      using jpos by (simp add: power_int_def field_simps)
    have p2: "(2::real) powi (- j + 1) = 1 / 2 ^ nat (j - 1)"
    proof -
      have "- j + 1 = - (j - 1)" by simp
      moreover have "0 \<le> j - 1" using jpos by simp
      ultimately show ?thesis
        by (simp add: power_int_def field_simps nat_diff_distrib)
    qed
    have x: "x = 1 / y"
      by (simp add: y_def)
    have "1 / 2 ^ nat j \<le> 1 / y"
      using yhi y by (simp add: frac_le)
    moreover have "1 / y < 1 / 2 ^ nat (j - 1)"
      using ylo by (simp add: frac_less2)
    ultimately have "2 powi (- j) \<le> x \<and> x < 2 powi (- j + 1)"
      by (simp only: p1 p2 x)
    moreover have "ilog2 x = - j"
      using False by (simp add: ilog2_def y_def c_def j_def)
    ultimately show ?thesis
      by simp
  qed
  then show "2 powi ilog2 x \<le> x" and "x < 2 powi (ilog2 x + 1)"
    by simp_all
qed

lemma two_powi_pos: "0 < (2::real) powi k"
  by (simp add: zero_less_power_int)

lemma two_powi_less_imp: "(2::real) powi a < 2 powi b \<Longrightarrow> a < b"
  using power_int_increasing [of b a "2::real"] by (cases "a < b") simp_all

lemma two_powi_le_mono: "a \<le> b \<Longrightarrow> (2::real) powi a \<le> 2 powi b"
  by (rule power_int_increasing) simp_all

lemma ulp_exp_normal:
  assumes "2 powi (- 1022) \<le> \<bar>x\<bar>"
  shows "ulp_exp x = ilog2 \<bar>x\<bar> - 52" and "2 ^ 52 \<le> \<bar>x\<bar> / 2 powi ulp_exp x"
proof -
  have pos: "0 < \<bar>x\<bar>"
    using assms two_powi_pos [of "- 1022"] by linarith
  have "2 powi (- 1022) < (2::real) powi (ilog2 \<bar>x\<bar> + 1)"
    using assms ilog2_bounds(2) [OF pos] by linarith
  then have "- 1022 < ilog2 \<bar>x\<bar> + 1"
    by (rule two_powi_less_imp)
  then show t: "ulp_exp x = ilog2 \<bar>x\<bar> - 52"
    by (simp add: ulp_exp_def)
  have "(2::real) powi (ilog2 \<bar>x\<bar> - 52 + 52) = 2 powi (ilog2 \<bar>x\<bar> - 52) * 2 powi 52"
    by (rule power_int_add) simp
  then have "2 powi (ilog2 \<bar>x\<bar> - 52) * 2 ^ 52 \<le> \<bar>x\<bar>"
    using ilog2_bounds(1) [OF pos] by simp
  then show "2 ^ 52 \<le> \<bar>x\<bar> / 2 powi ulp_exp x"
    unfolding t using two_powi_pos [of "ilog2 \<bar>x\<bar> - 52"]
    by (simp add: pos_le_divide_eq mult.commute)
qed

lemma rnd_0 [simp]: "rnd 0 = 0"
  by (simp add: rnd_def)

lemma ulp_exp_minus [simp]: "ulp_exp (- x) = ulp_exp x"
  by (simp add: ulp_exp_def)

lemma rnd_minus: "rnd (- x) = - rnd x"
  by (simp add: rnd_def sgn_minus)

lemma ulp_exp_abs [simp]: "ulp_exp \<bar>x\<bar> = ulp_exp x"
  by (simp add: ulp_exp_def)



lemma rnd_rel_error:
  assumes "2 powi (- 1022) \<le> \<bar>x\<bar>"
  shows "\<bar>rnd x - x\<bar> \<le> \<bar>x\<bar> / 2 ^ 53"
proof -
  define t where "t = ulp_exp x"
  define y where "y = \<bar>x\<bar> / 2 powi t"
  define r :: real where "r = of_int (rne y)"
  have tp: "0 < (2::real) powi t"
    by (rule two_powi_pos)
  have y52: "2 ^ 52 \<le> y"
    unfolding y_def t_def by (rule ulp_exp_normal(2) [OF assms])
  have ax: "\<bar>x\<bar> = y * 2 powi t"
    using tp by (simp add: y_def)
  have x0: "x \<noteq> 0"
    using assms two_powi_pos [of "- 1022"] by auto
  have "\<bar>r - y\<bar> \<le> 1 / 2"
    unfolding r_def by (rule rne_error)
  also have "\<dots> \<le> y / 2 ^ 53"
    using y52 by simp
  finally have ry: "\<bar>r - y\<bar> \<le> y / 2 ^ 53" .
  have "rnd x - x = sgn x * ((r - y) * 2 powi t)"
  proof -
    have "x = sgn x * \<bar>x\<bar>"
      by (simp add: sgn_mult_abs)
    then have "x = sgn x * (y * 2 powi t)"
      by (simp only: ax)
    moreover have "rnd x = sgn x * (r * 2 powi t)"
      using x0 by (simp add: rnd_def r_def y_def t_def)
    ultimately show ?thesis
      by (metis left_diff_distrib right_diff_distrib)
  qed
  then have "\<bar>rnd x - x\<bar> = \<bar>r - y\<bar> * 2 powi t"
    using x0 tp by (simp add: abs_mult abs_sgn_eq)
  also have "\<dots> \<le> y / 2 ^ 53 * 2 powi t"
    using ry tp by (simp add: mult_right_mono)
  also have "\<dots> = \<bar>x\<bar> / 2 ^ 53"
    by (simp add: ax)
  finally show ?thesis .
qed

lemma beta_gt_1: "1 < beta"
  by (simp add: beta_def)

lemma beta_power_ge_1: "1 \<le> beta ^ k"
  using beta_gt_1 by (simp add: one_le_power)

lemma beta_power_pos: "0 < beta ^ k"
  using beta_power_ge_1 [of k] by linarith

lemma beta_power_le_2:
  assumes "k \<le> 40"
  shows "beta ^ k \<le> 2"
proof -
  have "beta ^ k \<le> beta ^ 40"
    using assms beta_gt_1 by (simp add: power_increasing)
  also have "\<dots> \<le> 2"
    by (simp add: beta_def power_divide)
  finally show ?thesis .
qed

lemma rel_refl: "rel 0 x x"
  unfolding rel_def by (intro exI [of _ 1]) simp

lemma rel_mono:
  assumes "rel j w X" "j \<le> k"
  shows "rel k w X"
proof -
  from assms(1) obtain \<theta> where t: "w = X * \<theta>" "1 / beta ^ j \<le> \<theta>" "\<theta> \<le> beta ^ j"
    unfolding rel_def by blast
  have le: "beta ^ j \<le> beta ^ k"
    using assms(2) beta_gt_1 by (simp add: power_increasing)
  then have "1 / beta ^ k \<le> 1 / beta ^ j"
    using beta_power_pos [of j] by (simp add: frac_le)
  with t le show ?thesis
    unfolding rel_def by (intro exI [of _ \<theta>]) simp
qed

lemma rel_mult:
  assumes "rel j x X" "rel k y Y"
  shows "rel (j + k) (x * y) (X * Y)"
proof -
  from assms(1) obtain s where s: "x = X * s" "1 / beta ^ j \<le> s" "s \<le> beta ^ j"
    unfolding rel_def by blast
  from assms(2) obtain t where t: "y = Y * t" "1 / beta ^ k \<le> t" "t \<le> beta ^ k"
    unfolding rel_def by blast
  have s0: "0 < s" and t0: "0 < t"
    using s(2) t(2) beta_power_pos [of j] beta_power_pos [of k]
    by (meson divide_pos_pos less_le_trans zero_less_one)+
  have "s * t \<le> beta ^ j * beta ^ k"
    using s(3) t(3) s0 t0 by (simp add: mult_mono)
  moreover have "1 / beta ^ j * (1 / beta ^ k) \<le> s * t"
    using s(2) t(2) s0 beta_power_pos [of k] by (intro mult_mono) simp_all
  ultimately show ?thesis
    unfolding rel_def using s(1) t(1)
    by (intro exI [of _ "s * t"]) (simp add: power_add)
qed

lemma rel_inverse:
  assumes "rel k y Y"
  shows "rel k (1 / y) (1 / Y)"
proof -
  from assms obtain t where t: "y = Y * t" "1 / beta ^ k \<le> t" "t \<le> beta ^ k"
    unfolding rel_def by blast
  have t0: "0 < t"
    using t(2) beta_power_pos [of k] by (meson divide_pos_pos less_le_trans zero_less_one)
  have "1 / t \<le> beta ^ k"
    using t(2) t0 beta_power_pos [of k] by (simp add: field_simps)
  moreover have "1 / beta ^ k \<le> 1 / t"
    using t(3) t0 by (simp add: frac_le)
  ultimately show ?thesis
    unfolding rel_def using t(1) by (intro exI [of _ "1 / t"]) simp
qed

lemma rel_divide:
  assumes "rel j x X" "rel k y Y"
  shows "rel (j + k) (x / y) (X / Y)"
  using rel_mult [OF assms(1) rel_inverse [OF assms(2)]] by simp

lemma rel_trans:
  assumes "rel j w x" "rel k x X"
  shows "rel (j + k) w X"
proof -
  from assms(1) obtain s where s: "w = x * s" "1 / beta ^ j \<le> s" "s \<le> beta ^ j"
    unfolding rel_def by blast
  have "rel j s 1"
    unfolding rel_def using s(2,3) by (intro exI [of _ s]) simp
  from rel_mult [OF assms(2) this] show ?thesis
    by (simp add: s(1) add.commute)
qed


lemma rel_abs:
  assumes "rel k w X"
  shows "rel k \<bar>w\<bar> \<bar>X\<bar>"
proof -
  from assms obtain t where t: "w = X * t" "1 / beta ^ k \<le> t" "t \<le> beta ^ k"
    unfolding rel_def by blast
  have t0: "0 < t"
    using t(2) beta_power_pos [of k] by (meson divide_pos_pos less_le_trans zero_less_one)
  then have "\<bar>w\<bar> = \<bar>X\<bar> * t"
    by (simp add: t(1) abs_mult)
  with t show ?thesis
    unfolding rel_def by blast
qed

lemma rel_power:
  assumes "rel j x X"
  shows "rel (n * j) (x ^ n) (X ^ n)"
proof (induction n)
  case 0
  show ?case by (simp add: rel_refl)
next
  case (Suc n)
  from rel_mult [OF assms Suc] show ?case
    by (simp add: add.commute)
qed

lemma rel_pos:
  assumes "rel k w X"
  shows "0 < w \<longleftrightarrow> 0 < X" and "w < 0 \<longleftrightarrow> X < 0" and "w = 0 \<longleftrightarrow> X = 0"
proof -
  from assms obtain t where t: "w = X * t" "1 / beta ^ k \<le> t"
    unfolding rel_def by blast
  have t0: "0 < t"
    using t(2) beta_power_pos [of k] by (meson divide_pos_pos less_le_trans zero_less_one)
  show "0 < w \<longleftrightarrow> 0 < X" "w < 0 \<longleftrightarrow> X < 0" "w = 0 \<longleftrightarrow> X = 0"
    using t0 by (simp_all add: t(1) zero_less_mult_iff mult_less_0_iff)
qed

lemma rel_bounds:
  assumes "rel k w X"
  shows "\<bar>X\<bar> / beta ^ k \<le> \<bar>w\<bar>" and "\<bar>w\<bar> \<le> \<bar>X\<bar> * beta ^ k"
proof -
  from rel_abs [OF assms] obtain t where t: "\<bar>w\<bar> = \<bar>X\<bar> * t" "1 / beta ^ k \<le> t" "t \<le> beta ^ k"
    unfolding rel_def by blast
  show "\<bar>w\<bar> \<le> \<bar>X\<bar> * beta ^ k"
    using t(3) by (simp add: t(1) mult_left_mono)
  have "\<bar>X\<bar> * (1 / beta ^ k) \<le> \<bar>X\<bar> * t"
    using t(2) by (intro mult_left_mono) simp_all
  then show "\<bar>X\<bar> / beta ^ k \<le> \<bar>w\<bar>"
    by (simp add: t(1))
qed

lemma rel_bounds_2:
  assumes "rel k w X" "k \<le> 40"
  shows "\<bar>X\<bar> / 2 \<le> \<bar>w\<bar>" and "\<bar>w\<bar> \<le> 2 * \<bar>X\<bar>"
proof -
  note b = beta_power_le_2 [OF assms(2)]
  have "\<bar>w\<bar> \<le> \<bar>X\<bar> * beta ^ k"
    by (rule rel_bounds(2) [OF assms(1)])
  also have "\<dots> \<le> \<bar>X\<bar> * 2"
    using b by (intro mult_left_mono) simp_all
  finally show "\<bar>w\<bar> \<le> 2 * \<bar>X\<bar>"
    by simp
  have "\<bar>X\<bar> / 2 \<le> \<bar>X\<bar> / beta ^ k"
    using b beta_power_pos [of k] by (intro divide_left_mono) simp_all
  also have "\<dots> \<le> \<bar>w\<bar>"
    by (rule rel_bounds(1) [OF assms(1)])
  finally show "\<bar>X\<bar> / 2 \<le> \<bar>w\<bar>" .
qed

lemma rel_rnd:
  assumes "2 powi (- 1022) \<le> \<bar>x\<bar>"
  shows "rel 1 (rnd x) x"
proof -
  have x0: "x \<noteq> 0"
    using assms two_powi_pos [of "- 1022"] by auto
  define t where "t = rnd x / x"
  have "\<bar>rnd x - x\<bar> \<le> \<bar>x\<bar> / 2 ^ 53"
    by (rule rnd_rel_error [OF assms])
  then have "\<bar>rnd x - x\<bar> / \<bar>x\<bar> \<le> 1 / 2 ^ 53"
    using x0 by (simp add: field_simps)
  moreover have "\<bar>rnd x - x\<bar> / \<bar>x\<bar> = \<bar>t - 1\<bar>"
    using x0 by (simp add: t_def field_simps flip: abs_divide)
  ultimately have "\<bar>t - 1\<bar> \<le> 1 / 2 ^ 53"
    by simp
  then have "1 - 1 / 2 ^ 53 \<le> t" "t \<le> 1 + 1 / 2 ^ 53"
    by linarith+
  moreover have "1 / beta \<le> 1 - 1 / 2 ^ 53" "1 + 1 / 2 ^ 53 \<le> beta"
    by (simp_all add: beta_def)
  ultimately have "1 / beta ^ 1 \<le> t" "t \<le> beta ^ 1"
    by simp_all
  moreover have "rnd x = x * t"
    using x0 by (simp add: t_def)
  ultimately show ?thesis
    unfolding rel_def by blast
qed

lemma mag_nonzero:
  assumes "mag a b X"
  shows "X \<noteq> 0"
proof
  assume "X = 0"
  with assms have "2 powi a \<le> (0::real)"
    by (simp add: mag_def)
  with two_powi_pos [of a] show False
    by linarith
qed

lemma mag_mono:
  assumes "mag a b X" "a' \<le> a" "b \<le> b'"
  shows "mag a' b' X"
  using assms two_powi_le_mono [of a' a] two_powi_le_mono [of b b'] unfolding mag_def by linarith


lemma mag_abs: "mag a b \<bar>X\<bar> \<longleftrightarrow> mag a b X"
  by (simp add: mag_def)

lemma mag_mult:
  assumes "mag a b X" "mag c d Y"
  shows "mag (a + c) (b + d) (X * Y)"
proof -
  have "2 powi a * 2 powi c \<le> \<bar>X\<bar> * \<bar>Y\<bar>"
    using assms two_powi_pos [of a] two_powi_pos [of c] unfolding mag_def
    by (intro mult_mono) simp_all
  moreover have "\<bar>X\<bar> * \<bar>Y\<bar> \<le> 2 powi b * 2 powi d"
    using assms two_powi_pos [of b] unfolding mag_def
    by (intro mult_mono) simp_all
  ultimately show ?thesis
    unfolding mag_def by (simp add: abs_mult power_int_add)
qed

lemma mag_inverse:
  assumes "mag c d Y"
  shows "mag (- d) (- c) (1 / Y)"
proof -
  have Y: "0 < \<bar>Y\<bar>"
    using mag_nonzero [OF assms] by simp
  have "1 / 2 powi d \<le> 1 / \<bar>Y\<bar>"
    using assms Y unfolding mag_def by (simp add: frac_le)
  moreover have "1 / \<bar>Y\<bar> \<le> 1 / 2 powi c"
    using assms two_powi_pos [of c] unfolding mag_def by (simp add: frac_le)
  ultimately show ?thesis
    unfolding mag_def by (simp add: power_int_minus_divide)
qed

lemma mag_divide:
  assumes "mag a b X" "mag c d Y"
  shows "mag (a - d) (b - c) (X / Y)"
  using mag_mult [OF assms(1) mag_inverse [OF assms(2)]] by simp

lemma mag_power:
  assumes "mag a b X"
  shows "mag (int n * a) (int n * b) (X ^ n)"
proof (induction n)
  case 0
  show ?case by (simp add: mag_def)
next
  case (Suc n)
  from mag_mult [OF assms Suc] show ?case
    by (simp add: algebra_simps)
qed


lemma overflow_bound_gt: "2 powi 1023 < overflow_bound"
  by (simp add: overflow_bound_def)

lemma round64_finite:
  assumes "\<bar>x\<bar> \<le> 2 powi 1023"
  shows "round64 x = Fin (rnd x)"
  using assms overflow_bound_gt by (auto simp: round64_def abs_le_iff)

lemma mag_normalD:
  assumes "mag (- 1022) 1023 x"
  shows "2 powi (- 1022) \<le> \<bar>x\<bar>" and "\<bar>x\<bar> \<le> 2 powi 1023"
    and "\<not> overflow_bound \<le> \<bar>x\<bar>"
proof -
  show "2 powi (- 1022) \<le> \<bar>x\<bar>" and le: "\<bar>x\<bar> \<le> 2 powi 1023"
    using assms unfolding mag_def by blast+
  from le overflow_bound_gt show "\<not> overflow_bound \<le> \<bar>x\<bar>"
    by linarith
qed

lemma approxI:
  assumes "k \<le> 40" "mag a b X" "rel k x X"
  shows "approx k a b (Fin x) X"
  using assms by (simp add: approx_def)

lemma approxE:
  assumes "approx k a b f X"
  obtains x where "f = Fin x" "rel k x X" "mag a b X" "k \<le> 40"
  using assms unfolding approx_def by blast

lemma approx_exact: "mag a b x \<Longrightarrow> approx 0 a b (Fin x) x"
  by (simp add: approx_def rel_refl)

lemma approx_weaken:
  assumes "approx j a b f X" "j \<le> k" "k \<le> 40" "a' \<le> a" "b \<le> b'"
  shows "approx k a' b' f X"
  using assms rel_mono [of j _ X k] mag_mono [of a b X a' b'] unfolding approx_def by blast

text \<open>The value behind an approximation lies within a factor two of the ideal.\<close>

lemma approx_mag:
  assumes "rel k x X" "k \<le> 40" "mag a b X"
  shows "mag (a - 1) (b + 1) x"
proof -
  have "2 powi (a - 1) = 2 powi a / (2::real)"
    by (simp add: power_int_diff)
  also have "\<dots> \<le> \<bar>X\<bar> / 2"
    using assms(3) by (simp add: mag_def)
  also have "\<dots> \<le> \<bar>x\<bar>"
    by (rule rel_bounds_2(1) [OF assms(1,2)])
  finally have lo: "2 powi (a - 1) \<le> \<bar>x\<bar>" .
  have "\<bar>x\<bar> \<le> 2 * \<bar>X\<bar>"
    by (rule rel_bounds_2(2) [OF assms(1,2)])
  also have "\<dots> \<le> 2 * 2 powi b"
    using assms(3) by (simp add: mag_def)
  also have "\<dots> = 2 powi (b + 1)"
    by (simp add: power_int_add)
  finally show ?thesis
    using lo by (simp add: mag_def)
qed

text \<open>Rounding an in-range value that approximates an ideal one.\<close>

lemma approx_round:
  assumes "rel k x X" "mag a b X"
    and "Suc k \<le> m" "m \<le> 40" "a' \<le> a" "- 1021 \<le> a'" "b \<le> b'" "b' \<le> 1022"
  shows "approx m a' b' (round64 x) X"
proof -
  have k: "k \<le> 40"
    using assms(3,4) by simp
  have "mag (a - 1) (b + 1) x"
    by (rule approx_mag [OF assms(1) k assms(2)])
  then have m: "mag (- 1022) 1023 x"
    by (rule mag_mono) (use assms(5-8) in simp_all)
  have "round64 x = Fin (rnd x)"
    by (rule round64_finite [OF mag_normalD(2) [OF m]])
  moreover have "rel 1 (rnd x) x"
    by (rule rel_rnd [OF mag_normalD(1) [OF m]])
  from rel_trans [OF this assms(1)] have "rel (Suc k) (rnd x) X"
    by simp
  then have "rel m (rnd x) X"
    using assms(3) by (rule rel_mono)
  moreover have "mag a' b' X"
    using assms(2,5,7) by (rule mag_mono)
  ultimately show ?thesis
    using assms(4) by (simp add: approx_def)
qed

lemma approx_fmul:
  assumes "approx j a b f X" "approx k c d g Y"
    and "Suc (j + k) \<le> m" "m \<le> 40" "a' \<le> a + c" "- 1021 \<le> a'" "b + d \<le> b'" "b' \<le> 1022"
  shows "approx m a' b' (fmul f g) (X * Y)"
proof -
  from assms(1) obtain x where x: "f = Fin x" "rel j x X" "mag a b X"
    by (rule approxE)
  from assms(2) obtain y where y: "g = Fin y" "rel k y Y" "mag c d Y"
    by (rule approxE)
  have "approx m a' b' (round64 (x * y)) (X * Y)"
    using rel_mult [OF x(2) y(2)] mag_mult [OF x(3) y(3)] assms(3-8) by (rule approx_round)
  then show ?thesis
    by (simp add: x(1) y(1))
qed

lemma approx_truediv:
  assumes "approx j a b f X" "approx k c d g Y"
    and "Suc (j + k) \<le> m" "m \<le> 40" "a' \<le> a - d" "- 1021 \<le> a'" "b - c \<le> b'" "b' \<le> 1022"
  shows "\<exists>r. py_truediv f g = Inr r \<and> approx m a' b' r (X / Y)"
proof -
  from assms(1) obtain x where x: "f = Fin x" "rel j x X" "mag a b X"
    by (rule approxE)
  from assms(2) obtain y where y: "g = Fin y" "rel k y Y" "mag c d Y"
    by (rule approxE)
  have "y \<noteq> 0"
    using rel_pos(3) [OF y(2)] mag_nonzero [OF y(3)] by simp
  then have "py_truediv f g = Inr (round64 (x / y))"
    by (simp add: py_truediv_def x(1) y(1))
  moreover have "approx m a' b' (round64 (x / y)) (X / Y)"
    using rel_divide [OF x(2) y(2)] mag_divide [OF x(3) y(3)] assms(3-8) by (rule approx_round)
  ultimately show ?thesis
    by blast
qed

lemma approx_fpow:
  assumes "approx j a b f X"
    and "Suc (n * j) \<le> m" "m \<le> 40" "a' \<le> int n * a" "- 1021 \<le> a'"
      "int n * b \<le> b'" "b' \<le> 1022"
  shows "\<exists>g. fpow f n = Inr g \<and> approx m a' b' g (X ^ n)"
proof -
  from assms(1) obtain x where x: "f = Fin x" "rel j x X" "mag a b X"
    by (rule approxE)
  have nj: "n * j \<le> 40"
    using assms(2,3) by simp
  have "mag (int n * a - 1) (int n * b + 1) (x ^ n)"
    by (rule approx_mag [OF rel_power [OF x(2)] nj mag_power [OF x(3)]])
  then have m: "mag (- 1022) 1023 (x ^ n)"
    by (rule mag_mono) (use assms(4-7) in simp_all)
  have "fpow f n = Inr (round64 (x ^ n))"
    using mag_normalD(3) [OF m] round64_finite [OF mag_normalD(2) [OF m]] by (simp add: x(1))
  moreover have "approx m a' b' (round64 (x ^ n)) (X ^ n)"
    using rel_power [OF x(2)] mag_power [OF x(3)] assms(2-7) by (rule approx_round)
  ultimately show ?thesis
    by blast
qed



lemma approx_fabs:
  assumes "approx k a b f X"
  shows "approx k a b (fabs f) \<bar>X\<bar>"
  using assms rel_abs unfolding approx_def by (auto simp: mag_abs)

lemma valof_Fin [simp]: "valof (Fin x) = x"
  by (simp add: valof_def)



lemma approx_literal:
  assumes "mag a b q" "- 1021 \<le> a" "b \<le> 1022"
  shows "approx 1 a b (round64 q) q"
  using rel_refl assms(1) by (rule approx_round) (use assms(2,3) in simp_all)

lemma two_powi_neg_numeral: "(2::real) powi (- numeral k) = 1 / 2 ^ numeral k"
  by (simp add: power_int_minus_divide)

lemma const_h_approx: "approx 1 (- 111) (- 110) const_h (662607015 / 10 ^ 42)"
  unfolding const_h_def by (rule approx_literal) (simp_all add: mag_def)

lemma const_e_approx: "approx 1 (- 63) (- 62) const_e (1602176634 / 10 ^ 28)"
  unfolding const_e_def by (rule approx_literal) (simp_all add: mag_def)

lemma const_m_e_approx: "approx 1 (- 100) (- 99) const_m_e (91093837015 / 10 ^ 41)"
  unfolding const_m_e_def by (rule approx_literal) (simp_all add: mag_def)

lemma const_epsilon0_approx: "approx 1 (- 37) (- 36) const_epsilon0 (88541878128 / 10 ^ 22)"
  unfolding const_epsilon0_def by (rule approx_literal) (simp_all add: mag_def)


lemma const_pi_approx: "approx 0 1 2 const_pi (884279719003555 / 2 ^ 48)"
  unfolding const_pi_def by (rule approx_exact) (simp add: mag_def)

lemma Fin_numeral_approx:
  "approx 0 1 1 (Fin 2) 2" "approx 0 2 2 (Fin 4) 4" "approx 0 3 3 (Fin 8) 8"
  by (rule approx_exact, simp add: mag_def)+

lemma const_hbar_ok:
  "\<exists>hb. const_hbar = Inr hb \<and>
     approx 3 (- 114) (- 112) hb (662607015 / 10 ^ 42 / (2 * (884279719003555 / 2 ^ 48)))"
proof -
  have "approx 1 2 3 (fmul (Fin 2) const_pi) (2 * (884279719003555 / 2 ^ 48))"
    by (rule approx_fmul [OF Fin_numeral_approx(1) const_pi_approx]) simp_all
  then show ?thesis
    unfolding const_hbar_def by (rule approx_truediv [OF const_h_approx]) simp_all
qed

lemma round64_Fin_rnd: "round64 x = Fin v \<Longrightarrow> v = rnd x"
  by (simp add: round64_def split: if_splits)

lemma fdiv_Fin_rnd:
  assumes "fdiv f g = Fin v"
  shows "\<exists>q. v = rnd q"
proof (cases f)
  case (Fin x)
  show ?thesis
  proof (cases g)
    case (Fin y)
    with \<open>f = Fin x\<close> assms have "v = rnd (x / y)"
      by (simp add: round64_Fin_rnd)
    then show ?thesis ..
  next
    case PInf
    with \<open>f = Fin x\<close> assms have "v = rnd 0"
      by (simp add: rnd_def)
    then show ?thesis ..
  next
    case NInf
    with \<open>f = Fin x\<close> assms have "v = rnd 0"
      by (simp add: rnd_def)
    then show ?thesis ..
  next
    case NaN
    with \<open>f = Fin x\<close> assms show ?thesis
      by simp
  qed
next
  case PInf
  with assms show ?thesis
    by (cases g) (simp_all add: inf_of_sign_def split: if_splits)
next
  case NInf
  with assms show ?thesis
    by (cases g) (simp_all add: inf_of_sign_def split: if_splits)
next
  case NaN
  with assms show ?thesis
    by simp
qed

lemma py_truediv_Fin_rnd:
  assumes "py_truediv f g = Inr (Fin v)"
  shows "\<exists>q. v = rnd q"
  using assms fdiv_Fin_rnd [of f g v] by (simp add: py_truediv_def split: if_splits)

lemma init_ok:
  assumes "1 \<le> z"
  shows "\<exists>self. BohrAtom_init z = Inr self \<and> Z self = z \<and> self_h self = const_h
           \<and> self_e self = const_e \<and> self_m_e self = const_m_e
           \<and> self_epsilon0 self = const_epsilon0 \<and> self_c self = const_c
           \<and> approx 17 (- 39) (- 30) (a0 self) a0_ideal \<and> (\<exists>q. a0 self = Fin (rnd q))"
proof -
  from const_hbar_ok obtain hb where hb: "const_hbar = Inr hb"
    "approx 3 (- 114) (- 112) hb (662607015 / 10 ^ 42 / (2 * (884279719003555 / 2 ^ 48)))"
    by blast
  have "\<exists>g. fpow hb 2 = Inr g \<and>
      approx 7 (- 228) (- 224) g ((662607015 / 10 ^ 42 / (2 * (884279719003555 / 2 ^ 48))) ^ 2)"
    by (rule approx_fpow [OF hb(2)]) simp_all
  then obtain hb2 where hb2: "fpow hb 2 = Inr hb2"
    "approx 7 (- 228) (- 224) hb2 ((662607015 / 10 ^ 42 / (2 * (884279719003555 / 2 ^ 48))) ^ 2)"
    by blast
  have "\<exists>g. fpow const_e 2 = Inr g \<and> approx 3 (- 126) (- 124) g ((1602176634 / 10 ^ 28) ^ 2)"
    by (rule approx_fpow [OF const_e_approx]) simp_all
  then obtain e2 where e2: "fpow const_e 2 = Inr e2"
    "approx 3 (- 126) (- 124) e2 ((1602176634 / 10 ^ 28) ^ 2)"
    by blast
  have p1: "approx 1 3 4 (fmul (Fin 4) const_pi) (4 * (884279719003555 / 2 ^ 48))"
    by (rule approx_fmul [OF Fin_numeral_approx(2) const_pi_approx]) simp_all
  have p2: "approx 3 (- 34) (- 32) (fmul (fmul (Fin 4) const_pi) const_epsilon0)
      (4 * (884279719003555 / 2 ^ 48) * (88541878128 / 10 ^ 22))"
    by (rule approx_fmul [OF p1 const_epsilon0_approx]) simp_all
  have p3: "approx 11 (- 262) (- 256) (fmul (fmul (fmul (Fin 4) const_pi) const_epsilon0) hb2)
      (4 * (884279719003555 / 2 ^ 48) * (88541878128 / 10 ^ 22)
        * (662607015 / 10 ^ 42 / (2 * (884279719003555 / 2 ^ 48))) ^ 2)"
    by (rule approx_fmul [OF p2 hb2(2)]) simp_all
  have p4: "approx 5 (- 226) (- 223) (fmul const_m_e e2)
      (91093837015 / 10 ^ 41 * (1602176634 / 10 ^ 28) ^ 2)"
    by (rule approx_fmul [OF const_m_e_approx e2(2)]) simp_all
  have "\<exists>r. py_truediv (fmul (fmul (fmul (Fin 4) const_pi) const_epsilon0) hb2)
          (fmul const_m_e e2) = Inr r \<and> approx 17 (- 39) (- 30) r a0_ideal"
    unfolding a0_ideal_def by (rule approx_truediv [OF p3 p4]) simp_all
  then obtain r where r:
    "py_truediv (fmul (fmul (fmul (Fin 4) const_pi) const_epsilon0) hb2) (fmul const_m_e e2) = Inr r"
    "approx 17 (- 39) (- 30) r a0_ideal"
    by blast
  from r(2) obtain v where v: "r = Fin v"
    by (rule approxE)
  with r(1) have "\<exists>q. v = rnd q"
    by (simp add: py_truediv_Fin_rnd)
  with v have "\<exists>q. r = Fin (rnd q)"
    by simp
  then show ?thesis
    using assms by (simp add: BohrAtom_init_def py_bind_def hb(1) hb2(1) e2(1) r)
qed

lemma init_low:
  assumes "z < 1"
  shows "BohrAtom_init z = Inl (ValueError msg_Z)"
proof -
  from const_hbar_ok obtain hb where hb: "const_hbar = Inr hb"
    by blast
  show ?thesis
    using assms by (simp add: BohrAtom_init_def py_bind_def hb)
qed








lemma rel_error:
  assumes "rel k w X"
  shows "\<bar>w - X\<bar> \<le> (beta ^ k - 1) * \<bar>X\<bar>"
proof -
  from assms obtain t where t: "w = X * t" "1 / beta ^ k \<le> t" "t \<le> beta ^ k"
    unfolding rel_def by blast
  define B where "B = beta ^ k"
  have B: "1 \<le> B"
    unfolding B_def by (rule beta_power_ge_1)
  have "0 \<le> (B - 1) * (B - 1)"
    by simp
  then have "2 * B - B * B \<le> 1"
    by (simp add: algebra_simps)
  then have "2 - B \<le> 1 / B"
    using B by (simp add: field_simps)
  then have "\<bar>t - 1\<bar> \<le> B - 1"
    using t(2,3) unfolding B_def [symmetric] by linarith
  then have "\<bar>X\<bar> * \<bar>t - 1\<bar> \<le> \<bar>X\<bar> * (B - 1)"
    by (intro mult_left_mono) simp_all
  moreover have "w - X = X * (t - 1)"
    by (simp add: t(1) algebra_simps)
  ultimately show ?thesis
    by (simp add: abs_mult B_def mult.commute)
qed



lemma energy_joule_low: "n < 1 \<Longrightarrow> energy_joule self n = Inl (ValueError msg_n)"
  by (simp add: energy_joule_def)








text \<open>
  C10: in \<open>energy\<close> the level is validated before the unit is inspected. For every
  instance, every integer \<open>n < 1\<close> and every unit string, recognised or not, the error is
  the \<^verbatim>\<open>ValueError\<close> of \<open>energy_joule\<close> about \<open>n\<close>, never the one about the unit.
\<close>

theorem energy_checks_level_first:
  "n < 1 \<Longrightarrow>
     energy self n unit = Inl (ValueError msg_n)
     \<and> energy self n unit \<noteq> Inl (ValueError msg_unit)"
  by (simp add: energy_def py_bind_def energy_joule_low msg_n_neq_msg_unit)

theorem energy_checks_level_first_witness:
  "(0::int) < 1 \<and> energy hydrogen 0 ''kWh'' = Inl (ValueError msg_n)
   \<and> energy hydrogen 0 ''kWh'' \<noteq> Inl (ValueError msg_unit)"
proof -
  have low: "(0::int) < 1"
    by simp
  from low energy_checks_level_first [OF low, of hydrogen "''kWh''"] show ?thesis
    by (rule conjI)
qed

lemma a0_ideal_close:
  "\<bar>a0_ideal - 529177 / 10 ^ 16\<bar> + (beta ^ 17 - 1) * \<bar>a0_ideal\<bar>
     \<le> 1 / 1000 * (529177 / 10 ^ 16)"
  by (simp add: a0_ideal_def beta_def power_divide)

text \<open>
  C2: \<open>BohrAtom_init\<close> raises the \<^verbatim>\<open>ValueError\<close> of line 32 for every integer
  \<open>Z < 1\<close>, and for every integer \<open>Z \<ge> 1\<close> it succeeds with that integer stored in the
  field \<open>Z\<close> and a Bohr radius \<open>a0\<close>, a finite binary64 number, within 0.1 percent of
  \<open>5.29177e-11\<close> metres (the radius does not depend on \<open>Z\<close>, so this holds at \<open>Z = 1\<close> in
  particular).
\<close>

theorem init_spec:
  "(z < 1 \<longrightarrow> BohrAtom_init z = Inl (ValueError msg_Z))
   \<and> (1 \<le> z \<longrightarrow>
        (\<exists>self r. BohrAtom_init z = Inr self \<and> Z self = z \<and> a0 self = Fin r
           \<and> \<bar>r - 529177 / 10 ^ 16\<bar> \<le> 1 / 1000 * (529177 / 10 ^ 16)))"
proof (intro conjI impI)
  assume "z < 1"
  then show "BohrAtom_init z = Inl (ValueError msg_Z)"
    by (rule init_low)
next
  assume "1 \<le> z"
  from init_ok [OF this] obtain self where self: "BohrAtom_init z = Inr self" "Z self = z"
    "approx 17 (- 39) (- 30) (a0 self) a0_ideal"
    by blast
  from self(3) obtain r where r: "a0 self = Fin r" "rel 17 r a0_ideal"
    by (rule approxE)
  have "\<bar>r - 529177 / 10 ^ 16\<bar> \<le> \<bar>r - a0_ideal\<bar> + \<bar>a0_ideal - 529177 / 10 ^ 16\<bar>"
    by linarith
  also have "\<dots> \<le> (beta ^ 17 - 1) * \<bar>a0_ideal\<bar> + \<bar>a0_ideal - 529177 / 10 ^ 16\<bar>"
    using rel_error [OF r(2)] by linarith
  also have "\<dots> \<le> 1 / 1000 * (529177 / 10 ^ 16)"
    using a0_ideal_close by linarith
  finally show "\<exists>self r. BohrAtom_init z = Inr self \<and> Z self = z \<and> a0 self = Fin r
           \<and> \<bar>r - 529177 / 10 ^ 16\<bar> \<le> 1 / 1000 * (529177 / 10 ^ 16)"
    using self(1,2) r(1) by blast
qed

theorem init_spec_witness:
  "BohrAtom_init 0 = Inl (ValueError msg_Z)
   \<and> BohrAtom_init (- 5) = Inl (ValueError msg_Z)
   \<and> (\<exists>self r. BohrAtom_init 1 = Inr self \<and> Z self = 1 \<and> a0 self = Fin r
           \<and> \<bar>r - 529177 / 10 ^ 16\<bar> \<le> 1 / 1000 * (529177 / 10 ^ 16))"
  using init_spec [of 0] init_spec [of "- 5"] init_spec [of 1]
  by simp

subsection \<open>Rounding: exact cases and the absolute error\<close>











lemma round64_minus: "round64 (- x) = fneg (round64 x)"
proof -
  have "0 < overflow_bound"
    using overflow_bound_gt two_powi_pos [of 1023] by linarith
  then show ?thesis
    by (auto simp: round64_def rnd_minus)
qed

lemma fabs_fneg [simp]: "fabs (fneg f) = fabs f"
  by (cases f) simp_all


subsection \<open>Energy in either unit\<close>





subsection \<open>Orbit radius\<close>








subsection \<open>Transitions\<close>










end
